theory Spec2Isabelle
  imports Complex_Main
begin

section \<open>Omost layout conditioning: the occlusion masks of \<open>omost_nodes.py\<close>\<close>

text \<open>
  The theory embeds \<open>OmostLayoutCondNode.calc_cond_mask\<close>,
  \<open>OmostLayoutCondNode.encode_bag_of_subprompts\<close> and
  \<open>OmostLayoutCondNode.layout_cond\<close>.

  \<^item> A tensor of shape \<open>[rows, cols]\<close> is a list of rows, each a list of cells. The cells
    are \<open>float32\<close> in the source; the only values the code ever writes are \<open>0.0\<close> and
    \<open>1.0\<close>, and on these \<open>1 - x\<close>, \<open>x * y\<close> and \<open>x + y\<close> (with \<open>x\<close>, \<open>y\<close> never both
    \<open>1\<close>) are exact, so the cells are modelled as reals. Lemma \<open>loop_body_binary\<close>
    below shows that no other value arises.
  \<^item> A region is a Python \<open>dict\<close>, mutated in place: \<open>canvas_conds.copy()\<close> is a shallow
    copy, so the returned list holds the very objects of the input list. The model has an
    explicit store from addresses to regions, and a list of regions is a list of
    addresses. The regions of a list are separate objects (the parser and \<open>json.loads\<close>
    build one \<open>dict\<close> per region), which is the hypothesis \<open>distinct canvas_conds\<close> of
    the theorems that need it.
  \<^item> \<open>OmostCanvasCondition\<close> is the declared type of a region: its \<open>rect\<close> is four
    integers. \<open>load_canvas\<close> returns whatever \<open>json.loads\<close> reads, so
    \<open>calc_cond_mask_json\<close> below is the same function on regions whose \<open>rect\<close> is any
    JSON value or absent, with the errors of the unpacking and of the slice; on regions of
    the declared type the two agree (lemma \<open>calc_cond_mask_json_typed\<close>).
  \<^item> Exceptions are values of type \<open>error\<close>; a function that can raise returns
    \<open>error + 'a\<close>. When a function raises, the store it had written so far is not
    returned.
  \<^item> The collaborators outside the repository are parameters: \<open>encode\<close> is
    \<open>CLIPTextEncode.encode(clip, text)[0]\<close>, \<open>torch_cat\<close> is \<open>torch.cat(tensors, dim=1)\<close>
    (which may raise) and \<open>cond_set_mask\<close> is \<open>ConditioningSetMask.append(...)[0]\<close>.
\<close>

subsection \<open>Data model\<close>

datatype error = AssertionError | IndexError | KeyError | RuntimeError | ValueError | TypeError

type_synonym grid = "real list list"

text \<open>\<open>OmostCanvasCondition\<close>: the key \<open>mask\<close> is absent until \<open>calc_cond_mask\<close> sets it.\<close>

record OmostCanvasCondition =
  rect :: "int \<times> int \<times> int \<times> int"
  prefixes :: "string list"
  suffixes :: "string list"
  mask' :: "grid option"

type_synonym addr = nat

type_synonym heap = "addr \<Rightarrow> OmostCanvasCondition"

definition CANVAS_SIZE :: nat where
  "CANVAS_SIZE = 90"

subsection \<open>Tensor operations\<close>

text \<open>\<open>torch.zeros([r, c])\<close> and \<open>torch.ones([r, c])\<close>.\<close>

definition zeros :: "nat \<Rightarrow> nat \<Rightarrow> grid" where
  "zeros r c = replicate r (replicate c 0)"

definition ones :: "nat \<Rightarrow> nat \<Rightarrow> grid" where
  "ones r c = replicate r (replicate c 1)"

text \<open>
  A bound \<open>k\<close> of a slice \<open>[a:b]\<close> over an axis of length \<open>n\<close>, as Python and torch
  normalise it: a negative bound counts from the end, and the result is clipped to
  \<open>0..n\<close>. A slice never raises; it is empty when its start is not below its stop.
\<close>

definition slice_index :: "nat \<Rightarrow> int \<Rightarrow> nat" where
  "slice_index n k = (if k < 0 then nat (max 0 (k + int n)) else min n (nat k))"

definition in_slice :: "nat \<Rightarrow> int \<Rightarrow> int \<Rightarrow> nat \<Rightarrow> bool" where
  "in_slice n a b i = (slice_index n a \<le> i \<and> i < slice_index n b)"

text \<open>\<open>g[a:b, c:d] = v\<close>.\<close>

definition slice_assign :: "grid \<Rightarrow> int \<Rightarrow> int \<Rightarrow> int \<Rightarrow> int \<Rightarrow> real \<Rightarrow> grid" where
  "slice_assign g a b c d v =
     map (\<lambda>(i, row).
            if in_slice (length g) a b i
            then map (\<lambda>(j, x). if in_slice (length row) c d j then v else x)
                   (zip [0..<length row] row)
            else row)
       (zip [0..<length g] g)"

text \<open>\<open>v - g\<close>, \<open>g * h\<close> and \<open>g + h\<close>, elementwise on tensors of one shape.\<close>

definition rsub :: "real \<Rightarrow> grid \<Rightarrow> grid" where
  "rsub v g = map (map (\<lambda>x. v - x)) g"

definition grid_mul :: "grid \<Rightarrow> grid \<Rightarrow> grid" where
  "grid_mul g h = map2 (map2 (*)) g h"

definition grid_add :: "grid \<Rightarrow> grid \<Rightarrow> grid" where
  "grid_add g h = map2 (map2 (+)) g h"

subsection \<open>\<open>calc_cond_mask\<close>\<close>

text \<open>
  The body of the loop \<open>for canvas_cond in canvas_conds[1:][::-1]\<close> (lines 285 to 290),
  on the store and \<open>canvas_state\<close>.
\<close>

definition loop_body :: "addr \<Rightarrow> heap \<times> grid \<Rightarrow> heap \<times> grid" where
  "loop_body canvas_cond s =
     (case s of (h, canvas_state) \<Rightarrow>
      (case rect (h canvas_cond) of (a, b, c, d) \<Rightarrow>
        let mask0 = zeros CANVAS_SIZE CANVAS_SIZE;
            mask1 = slice_assign mask0 a b c d 1;
            mask2 = grid_mul mask1 (rsub 1 canvas_state);
            canvas_state' = grid_add canvas_state mask2
        in (h(canvas_cond := (h canvas_cond)\<lparr>mask' := Some mask2\<rparr>), canvas_state')))"

text \<open>
  \<open>calc_cond_mask\<close>: the assertion, the mask of the global region, the loop over
  \<open>canvas_conds[1:][::-1]\<close>. It returns the store and the copied list.
\<close>

definition calc_cond_mask :: "heap \<Rightarrow> addr list \<Rightarrow> error + (heap \<times> addr list)" where
  "calc_cond_mask h canvas_conds =
     (if \<not> (length canvas_conds > 0) then Inl AssertionError
      else
        let global_cond = canvas_conds ! 0;
            h1 = h(global_cond := (h global_cond)\<lparr>mask' := Some (ones CANVAS_SIZE CANVAS_SIZE)\<rparr>);
            canvas_state = zeros CANVAS_SIZE CANVAS_SIZE;
            (h2, canvas_state') = fold loop_body (rev (tl canvas_conds)) (h1, canvas_state)
        in Inr (h2, canvas_conds))"

subsection \<open>\<open>calc_cond_mask\<close> on the regions that \<open>load_canvas\<close> delivers\<close>












subsection \<open>\<open>encode_bag_of_subprompts\<close> and \<open>layout_cond\<close>\<close>

text \<open>
  The loop \<open>for target in suffixes\<close> (lines 248 to 255): \<open>conds\<close> is the accumulator, and
  the assertion \<open>len(cond) == 1\<close> stops the loop.
\<close>

fun encode_loop ::
  "(string \<Rightarrow> ('e \<times> 'p) list) \<Rightarrow> string list \<Rightarrow> string list \<Rightarrow> ('e \<times> 'p) list
     \<Rightarrow> error + ('e \<times> 'p) list" where
  "encode_loop encode prefixes' [] conds = Inr conds"
| "encode_loop encode prefixes' (target # rest) conds =
     (let complete_prompt = concat (prefixes' @ [target]);
          cond = encode complete_prompt
      in if length cond \<noteq> 1 then Inl AssertionError
         else encode_loop encode prefixes' rest (conds @ cond))"

text \<open>
  The returned list (lines 260 to 267) evaluates \<open>torch.cat\<close> first and \<open>conds[0]\<close> second.
  An entry of a conditioning is the pair of the embedding and the pooled output.
\<close>

definition encode_bag_of_subprompts ::
  "(string \<Rightarrow> ('e \<times> 'p) list) \<Rightarrow> ('e list \<Rightarrow> error + 'e) \<Rightarrow> string list \<Rightarrow> string list
     \<Rightarrow> error + ('e \<times> 'p) list" where
  "encode_bag_of_subprompts encode torch_cat prefixes' suffixes' =
     (case encode_loop encode prefixes' suffixes' [] of
        Inl e \<Rightarrow> Inl e
      | Inr conds \<Rightarrow>
          (case torch_cat (map fst conds) of
             Inl e \<Rightarrow> Inl e
           | Inr t \<Rightarrow>
               (case conds of
                  [] \<Rightarrow> Inl IndexError
                | c # _ \<Rightarrow> Inr [(t, snd c)])))"

text \<open>
  Lines 308 to 317 of the body of the loop of \<open>layout_cond\<close>: the prefixes of the region
  \<open>canvas_cond\<close> at index \<open>i\<close>, and the call of \<open>encode_bag_of_subprompts\<close>.
\<close>

definition region_cond ::
  "(string \<Rightarrow> ('e \<times> 'p) list) \<Rightarrow> ('e list \<Rightarrow> error + 'e) \<Rightarrow> heap \<Rightarrow> nat \<Rightarrow> addr
     \<Rightarrow> error + ('e \<times> 'p) list" where
  "region_cond encode torch_cat h i canvas_cond =
     (let is_global = (i = 0);
          prefixes0 = prefixes (h canvas_cond);
          prefixes1 = (if \<not> is_global then drop 1 prefixes0 else prefixes0)
      in encode_bag_of_subprompts encode torch_cat prefixes1 (suffixes (h canvas_cond)))"

text \<open>The loop \<open>for i, canvas_cond in enumerate(canvas_conds)\<close> (lines 307 to 326).\<close>

fun layout_loop ::
  "(string \<Rightarrow> ('e \<times> 'p) list) \<Rightarrow> ('e list \<Rightarrow> error + 'e) \<Rightarrow>
   (('e \<times> 'p) list \<Rightarrow> grid \<Rightarrow> 's \<Rightarrow> 'c list) \<Rightarrow> heap \<Rightarrow> 's \<Rightarrow> 's \<Rightarrow>
   (nat \<times> addr) list \<Rightarrow> 'c list \<Rightarrow> error + 'c list" where
  "layout_loop encode torch_cat cond_set_mask h global_strength region_strength [] positive =
     Inr positive"
| "layout_loop encode torch_cat cond_set_mask h global_strength region_strength
     ((i, canvas_cond) # rest) positive =
     (let is_global = (i = 0) in
      case region_cond encode torch_cat h i canvas_cond of
        Inl e \<Rightarrow> Inl e
      | Inr cond \<Rightarrow>
          (case mask' (h canvas_cond) of
             None \<Rightarrow> Inl KeyError
           | Some m \<Rightarrow>
               let cond' = cond_set_mask cond m
                     (if is_global then global_strength else region_strength)
               in if length cond' \<noteq> 1 then Inl AssertionError
                  else layout_loop encode torch_cat cond_set_mask h global_strength
                         region_strength rest (positive @ cond')))"

text \<open>\<open>layout_cond\<close>; \<open>positive or []\<close> is the list, or the empty list for \<open>None\<close>.\<close>

definition layout_cond ::
  "(string \<Rightarrow> ('e \<times> 'p) list) \<Rightarrow> ('e list \<Rightarrow> error + 'e) \<Rightarrow>
   (('e \<times> 'p) list \<Rightarrow> grid \<Rightarrow> 's \<Rightarrow> 'c list) \<Rightarrow> heap \<Rightarrow> addr list \<Rightarrow> 's \<Rightarrow> 's \<Rightarrow>
   'c list option \<Rightarrow> error + (heap \<times> 'c list)" where
  "layout_cond encode torch_cat cond_set_mask h canvas_conds global_strength region_strength
     positive =
     (let positive0 = (case positive of None \<Rightarrow> [] | Some p \<Rightarrow> p) in
      case calc_cond_mask h canvas_conds of
        Inl e \<Rightarrow> Inl e
      | Inr (h', canvas_conds') \<Rightarrow>
          (case layout_loop encode torch_cat cond_set_mask h' global_strength region_strength
                  (zip [0..<length canvas_conds'] canvas_conds') positive0 of
             Inl e \<Rightarrow> Inl e
           | Inr positive' \<Rightarrow> Inr (h', positive')))"

subsection \<open>The notions of the specification\<close>

text \<open>A rectangle \<open>(a, b, c, d)\<close> in range: \<open>0 \<le> a \<le> b \<le> 90\<close> and \<open>0 \<le> c \<le> d \<le> 90\<close>.\<close>

definition valid_rect :: "int \<times> int \<times> int \<times> int \<Rightarrow> bool" where
  "valid_rect r = (case r of (a, b, c, d) \<Rightarrow>
     0 \<le> a \<and> a \<le> b \<and> b \<le> int CANVAS_SIZE \<and> 0 \<le> c \<and> c \<le> d \<and> d \<le> int CANVAS_SIZE)"

text \<open>The cell \<open>(x, y)\<close> lies in the half-open rectangle \<open>[a, b) \<times> [c, d)\<close>.\<close>

definition in_rectangle :: "int \<times> int \<times> int \<times> int \<Rightarrow> nat \<Rightarrow> nat \<Rightarrow> bool" where
  "in_rectangle r x y = (case r of (a, b, c, d) \<Rightarrow>
     a \<le> int x \<and> int x < b \<and> c \<le> int y \<and> int y < d)"


text \<open>The same input with the masks cleared.\<close>

definition clear_masks :: "heap \<Rightarrow> heap" where
  "clear_masks h = (\<lambda>a. (h a)\<lparr>mask' := None\<rparr>)"

text \<open>
  The complete prompt of a suffix \<open>t\<close>: the retained prefixes (all of them for the global
  region, all but the first otherwise) followed by the suffix, concatenated.
\<close>

definition region_prompt :: "bool \<Rightarrow> string list \<Rightarrow> string \<Rightarrow> string" where
  "region_prompt is_global ps t = concat ((if is_global then ps else tl ps) @ [t])"

subsection \<open>Auxiliary notions for the proofs\<close>

text \<open>
  A grid of the canvas shape, and a grid whose cells are all \<open>0\<close> or \<open>1\<close>.
\<close>

definition wf_grid :: "grid \<Rightarrow> bool" where
  "wf_grid g = (length g = CANVAS_SIZE \<and> list_all (\<lambda>row. length row = CANVAS_SIZE) g)"

definition binary_grid :: "grid \<Rightarrow> bool" where
  "binary_grid g = list_all (list_all (\<lambda>x. x = 0 \<or> x = 1)) g"

text \<open>
  The cell \<open>(x, y)\<close> is written by \<open>mask[a:b, c:d] = 1.0\<close> on a canvas-sized tensor, for any
  four integers.
\<close>

definition in_rect :: "int \<times> int \<times> int \<times> int \<Rightarrow> nat \<Rightarrow> nat \<Rightarrow> bool" where
  "in_rect r x y = (case r of (a, b, c, d) \<Rightarrow>
     in_slice CANVAS_SIZE a b x \<and> in_slice CANVAS_SIZE c d y)"

text \<open>
  The mask that one run of the loop body computes from a rectangle and \<open>canvas_state\<close>;
  the masks and the final \<open>canvas_state\<close> of a run of the loop over a list of rectangles;
  the store after the masks of a list of regions are written.
\<close>

definition region_mask :: "int \<times> int \<times> int \<times> int \<Rightarrow> grid \<Rightarrow> grid" where
  "region_mask r canvas_state = (case r of (a, b, c, d) \<Rightarrow>
     grid_mul (slice_assign (zeros CANVAS_SIZE CANVAS_SIZE) a b c d 1) (rsub 1 canvas_state))"

fun mask_seq :: "(int \<times> int \<times> int \<times> int) list \<Rightarrow> grid \<Rightarrow> grid list" where
  "mask_seq [] st = []"
| "mask_seq (r # rs) st = region_mask r st # mask_seq rs (grid_add st (region_mask r st))"

fun final_state :: "(int \<times> int \<times> int \<times> int) list \<Rightarrow> grid \<Rightarrow> grid" where
  "final_state [] st = st"
| "final_state (r # rs) st = final_state rs (grid_add st (region_mask r st))"

fun upd_masks :: "heap \<Rightarrow> addr list \<Rightarrow> grid list \<Rightarrow> heap" where
  "upd_masks h (a # as) (m # ms) = upd_masks (h(a := (h a)\<lparr>mask' := Some m\<rparr>)) as ms"
| "upd_masks h _ _ = h"

text \<open>
  The rectangles of the regions after index \<open>i\<close>, in the order the loop visits them, the
  mask of region \<open>i\<close> and the store that \<open>calc_cond_mask\<close> returns, in closed form.
\<close>

definition later_rects :: "heap \<Rightarrow> addr list \<Rightarrow> nat \<Rightarrow> (int \<times> int \<times> int \<times> int) list" where
  "later_rects h refs i = map (\<lambda>a. rect (h a)) (rev (drop (Suc i) refs))"

definition occlusion_mask :: "heap \<Rightarrow> addr list \<Rightarrow> nat \<Rightarrow> grid" where
  "occlusion_mask h refs i =
     region_mask (rect (h (refs ! i))) (final_state (later_rects h refs i) (zeros CANVAS_SIZE CANVAS_SIZE))"

definition calc_heap :: "heap \<Rightarrow> addr list \<Rightarrow> heap" where
  "calc_heap h refs =
     upd_masks (h(refs ! 0 := (h (refs ! 0))\<lparr>mask' := Some (ones CANVAS_SIZE CANVAS_SIZE)\<rparr>))
       (rev (tl refs))
       (mask_seq (map (\<lambda>a. rect (h a)) (rev (tl refs))) (zeros CANVAS_SIZE CANVAS_SIZE))"


subsection \<open>Example inputs\<close>

text \<open>
  The regions of the example of the specification: a global region at address \<open>0\<close>,
  \<open>rect (0, 90, 0, 90)\<close> at address \<open>1\<close>, \<open>rect (10, 20, 10, 20)\<close> at address \<open>2\<close>, and a
  region of zero area at every other address.
\<close>

definition example_heap :: heap where
  "example_heap = (\<lambda>a.
     \<lparr>rect = (if a = 0 then (3, 4, 5, 6) else if a = 1 then (0, 90, 0, 90)
              else if a = 2 then (10, 20, 10, 20) else (5, 5, 5, 5)),
      prefixes = [''g '', ''r ''], suffixes = [''x'', ''y''], mask' = None\<rparr>)"





text \<open>The example regions, the one at address \<open>1\<close> without suffixes.\<close>

definition no_suffix_heap :: heap where
  "no_suffix_heap = example_heap(1 := (example_heap 1)\<lparr>suffixes := []\<rparr>)"

text \<open>
  Collaborators for the examples: an encoder that returns one entry per prompt (the
  prompt as its embedding, its length as its pooled output), a concatenation that raises
  on the empty list as \<open>torch.cat\<close> does, and one that does not.
\<close>

definition example_encode :: "string \<Rightarrow> (string \<times> nat) list" where
  "example_encode s = [(s, length s)]"

definition example_cat :: "string list \<Rightarrow> error + string" where
  "example_cat ts = (if ts = [] then Inl RuntimeError else Inr (concat ts))"

definition total_cat :: "string list \<Rightarrow> error + string" where
  "total_cat ts = Inr (concat ts)"

definition example_set_mask :: "(string \<times> nat) list \<Rightarrow> grid \<Rightarrow> real \<Rightarrow> (string \<times> nat) list" where
  "example_set_mask cond m strength = cond"

section \<open>Properties\<close>

subsection \<open>Tensors of the canvas shape\<close>

lemma wf_gridD: "wf_grid g \<Longrightarrow> x < CANVAS_SIZE \<Longrightarrow> length g = CANVAS_SIZE \<and> length (g ! x) = CANVAS_SIZE"
  by (simp add: wf_grid_def list_all_length)

lemma wf_gridI: "length g = CANVAS_SIZE \<Longrightarrow> (\<And>x. x < CANVAS_SIZE \<Longrightarrow> length (g ! x) = CANVAS_SIZE) \<Longrightarrow> wf_grid g"
  by (simp add: wf_grid_def list_all_length)

lemma grid_eqI:
  assumes "wf_grid g" "wf_grid g'"
    and "\<And>x y. x < CANVAS_SIZE \<Longrightarrow> y < CANVAS_SIZE \<Longrightarrow> g ! x ! y = g' ! x ! y"
  shows "g = g'"
proof (rule nth_equalityI)
  show "length g = length g'" using assms(1,2) by (simp add: wf_grid_def)
next
  fix x assume "x < length g"
  then have x: "x < CANVAS_SIZE" using assms(1) by (simp add: wf_grid_def)
  show "g ! x = g' ! x"
  proof (rule nth_equalityI)
    show "length (g ! x) = length (g' ! x)" using wf_gridD[OF assms(1) x] wf_gridD[OF assms(2) x] by simp
  next
    fix y assume "y < length (g ! x)"
    then have "y < CANVAS_SIZE" using wf_gridD[OF assms(1) x] by simp
    then show "g ! x ! y = g' ! x ! y" using assms(3) x by simp
  qed
qed

lemma wf_zeros: "wf_grid (zeros CANVAS_SIZE CANVAS_SIZE)"
  by (simp add: wf_grid_def zeros_def list_all_length)

lemma wf_ones: "wf_grid (ones CANVAS_SIZE CANVAS_SIZE)"
  by (simp add: wf_grid_def ones_def list_all_length)

lemma nth_zeros: "x < r \<Longrightarrow> y < c \<Longrightarrow> zeros r c ! x ! y = 0"
  by (simp add: zeros_def)

lemma nth_ones: "x < r \<Longrightarrow> y < c \<Longrightarrow> ones r c ! x ! y = 1"
  by (simp add: ones_def)

lemma length_slice_assign: "length (slice_assign g a b c d v) = length g"
  by (simp add: slice_assign_def)

lemma length_nth_slice_assign:
  "x < length g \<Longrightarrow> length (slice_assign g a b c d v ! x) = length (g ! x)"
  by (simp add: slice_assign_def)

lemma nth_slice_assign:
  "x < length g \<Longrightarrow> y < length (g ! x) \<Longrightarrow>
   slice_assign g a b c d v ! x ! y =
     (if in_slice (length g) a b x \<and> in_slice (length (g ! x)) c d y then v else g ! x ! y)"
  by (simp add: slice_assign_def)

lemma nth_rsub: "x < length g \<Longrightarrow> y < length (g ! x) \<Longrightarrow> rsub v g ! x ! y = v - g ! x ! y"
  by (simp add: rsub_def)

lemma nth_grid_mul:
  "x < length g \<Longrightarrow> x < length h \<Longrightarrow> y < length (g ! x) \<Longrightarrow> y < length (h ! x) \<Longrightarrow>
   grid_mul g h ! x ! y = g ! x ! y * h ! x ! y"
  by (simp add: grid_mul_def)

lemma nth_grid_add:
  "x < length g \<Longrightarrow> x < length h \<Longrightarrow> y < length (g ! x) \<Longrightarrow> y < length (h ! x) \<Longrightarrow>
   grid_add g h ! x ! y = g ! x ! y + h ! x ! y"
  by (simp add: grid_add_def)

lemma wf_rsub: "wf_grid g \<Longrightarrow> wf_grid (rsub v g)"
  by (simp add: wf_grid_def rsub_def list_all_length)

lemma wf_slice_assign: "wf_grid g \<Longrightarrow> wf_grid (slice_assign g a b c d v)"
  by (simp add: wf_grid_def list_all_length length_slice_assign length_nth_slice_assign)

lemma wf_grid_mul: "wf_grid g \<Longrightarrow> wf_grid h \<Longrightarrow> wf_grid (grid_mul g h)"
  by (simp add: wf_grid_def grid_mul_def list_all_length)

lemma wf_grid_add: "wf_grid g \<Longrightarrow> wf_grid h \<Longrightarrow> wf_grid (grid_add g h)"
  by (simp add: wf_grid_def grid_add_def list_all_length)

lemma binary_gridD: "wf_grid g \<Longrightarrow> binary_grid g \<Longrightarrow> x < CANVAS_SIZE \<Longrightarrow> y < CANVAS_SIZE \<Longrightarrow> g ! x ! y = 0 \<or> g ! x ! y = 1"
  by (simp add: binary_grid_def wf_grid_def list_all_length)

lemma binary_gridI:
  "wf_grid g \<Longrightarrow> (\<And>x y. x < CANVAS_SIZE \<Longrightarrow> y < CANVAS_SIZE \<Longrightarrow> g ! x ! y = 0 \<or> g ! x ! y = 1) \<Longrightarrow> binary_grid g"
  by (simp add: binary_grid_def wf_grid_def list_all_length)

lemma binary_zeros: "binary_grid (zeros r c)"
  by (simp add: binary_grid_def zeros_def list_all_length)

lemma binary_ones: "binary_grid (ones r c)"
  by (simp add: binary_grid_def ones_def list_all_length)

subsection \<open>One run of the loop body\<close>

lemma wf_region_mask: "wf_grid st \<Longrightarrow> wf_grid (region_mask r st)"
  by (cases r) (simp add: region_mask_def wf_grid_mul wf_slice_assign wf_zeros wf_rsub)

lemma nth_region_mask:
  assumes "wf_grid st" "x < CANVAS_SIZE" "y < CANVAS_SIZE"
  shows "region_mask r st ! x ! y = (if in_rect r x y then 1 - st ! x ! y else 0)"
proof -
  obtain a b c d where r: "r = (a, b, c, d)" by (cases r) auto
  let ?z = "zeros CANVAS_SIZE CANVAS_SIZE"
  let ?m = "slice_assign ?z a b c d 1"
  have m: "wf_grid ?m" by (simp add: wf_slice_assign wf_zeros)
  have s: "wf_grid (rsub 1 st)" using assms(1) by (rule wf_rsub)
  have "grid_mul ?m (rsub 1 st) ! x ! y = ?m ! x ! y * rsub 1 st ! x ! y"
    using wf_gridD[OF m assms(2)] wf_gridD[OF s assms(2)] assms(2,3)
    by (simp add: nth_grid_mul)
  moreover have "?m ! x ! y = (if in_rect r x y then 1 else 0)"
    using wf_gridD[OF wf_zeros assms(2)] assms(2,3)
    by (simp add: nth_slice_assign r in_rect_def nth_zeros)
  moreover have "rsub 1 st ! x ! y = 1 - st ! x ! y"
    using wf_gridD[OF assms(1,2)] assms(2,3) by (simp add: nth_rsub)
  ultimately show ?thesis by (simp add: region_mask_def r)
qed

lemma nth_step_state:
  assumes "wf_grid st" "x < CANVAS_SIZE" "y < CANVAS_SIZE"
  shows "grid_add st (region_mask r st) ! x ! y = (if in_rect r x y then 1 else st ! x ! y)"
  using wf_gridD[OF assms(1,2)] wf_gridD[OF wf_region_mask[OF assms(1)] assms(2)] assms
  by (simp add: nth_grid_add nth_region_mask)

lemma wf_step_state: "wf_grid st \<Longrightarrow> wf_grid (grid_add st (region_mask r st))"
  by (simp add: wf_grid_add wf_region_mask)

lemma binary_region_mask:
  assumes "wf_grid st" "binary_grid st"
  shows "binary_grid (region_mask r st)"
proof (rule binary_gridI)
  show "wf_grid (region_mask r st)" using assms(1) by (rule wf_region_mask)
next
  fix x y assume "x < CANVAS_SIZE" "y < CANVAS_SIZE"
  then show "region_mask r st ! x ! y = 0 \<or> region_mask r st ! x ! y = 1"
    using binary_gridD[OF assms, of x y] assms(1) by (auto simp: nth_region_mask)
qed

lemma binary_step_state:
  assumes "wf_grid st" "binary_grid st"
  shows "binary_grid (grid_add st (region_mask r st))"
proof (rule binary_gridI)
  show "wf_grid (grid_add st (region_mask r st))" using assms(1) by (rule wf_step_state)
next
  fix x y assume "x < CANVAS_SIZE" "y < CANVAS_SIZE"
  then show "grid_add st (region_mask r st) ! x ! y = 0 \<or> grid_add st (region_mask r st) ! x ! y = 1"
    using binary_gridD[OF assms, of x y] assms(1) by (auto simp: nth_step_state)
qed

lemma loop_body_eq:
  "loop_body a (h, st) =
     (h(a := (h a)\<lparr>mask' := Some (region_mask (rect (h a)) st)\<rparr>),
      grid_add st (region_mask (rect (h a)) st))"
  by (cases "rect (h a)") (simp add: loop_body_def region_mask_def Let_def)

text \<open>
  The cells stay in \<open>{0, 1}\<close>: the arithmetic of the loop body is exact in \<open>float32\<close>.
\<close>

lemma loop_body_binary:
  assumes "wf_grid st" and "binary_grid st"
  shows "wf_grid (snd (loop_body a (h, st))) \<and> binary_grid (snd (loop_body a (h, st))) \<and>
     (\<exists>m. mask' (fst (loop_body a (h, st)) a) = Some m \<and> wf_grid m \<and> binary_grid m)"
  using assms
  by (simp add: loop_body_eq wf_step_state binary_step_state wf_region_mask binary_region_mask)

subsection \<open>The loop\<close>

lemma wf_final_state: "wf_grid st \<Longrightarrow> wf_grid (final_state rs st)"
  by (induction rs arbitrary: st) (simp_all add: wf_step_state)

lemma binary_final_state: "wf_grid st \<Longrightarrow> binary_grid st \<Longrightarrow> binary_grid (final_state rs st)"
  by (induction rs arbitrary: st) (simp_all add: wf_step_state binary_step_state)

lemma nth_final_state:
  "wf_grid st \<Longrightarrow> x < CANVAS_SIZE \<Longrightarrow> y < CANVAS_SIZE \<Longrightarrow>
   final_state rs st ! x ! y = (if \<exists>r\<in>set rs. in_rect r x y then 1 else st ! x ! y)"
proof (induction rs arbitrary: st)
  case Nil
  then show ?case by simp
next
  case (Cons r rs)
  have "final_state (r # rs) st ! x ! y =
        (if \<exists>r'\<in>set rs. in_rect r' x y then 1 else grid_add st (region_mask r st) ! x ! y)"
    using Cons.IH[OF wf_step_state[OF Cons.prems(1)] Cons.prems(2,3)] by simp
  then show ?case using Cons.prems by (auto simp: nth_step_state)
qed

lemma length_mask_seq: "length (mask_seq rs st) = length rs"
  by (induction rs arbitrary: st) simp_all

lemma mask_seq_append_nth:
  "mask_seq (pre @ r # post) st ! length pre = region_mask r (final_state pre st)"
  by (induction pre arbitrary: st) simp_all

lemma rect_upd_mask: "map (\<lambda>b. rect ((h(a := (h a)\<lparr>mask' := Some m\<rparr>)) b)) as = map (\<lambda>b. rect (h b)) as"
  by (rule map_cong) simp_all

lemma fold_loop_body:
  "fold loop_body as (h, st) =
     (upd_masks h as (mask_seq (map (\<lambda>a. rect (h a)) as) st),
      final_state (map (\<lambda>a. rect (h a)) as) st)"
proof (induction as arbitrary: h st)
  case Nil
  then show ?case by simp
next
  case (Cons a as)
  let ?m = "region_mask (rect (h a)) st"
  let ?h = "h(a := (h a)\<lparr>mask' := Some ?m\<rparr>)"
  have "fold loop_body (a # as) (h, st) = fold loop_body as (?h, grid_add st ?m)"
    by (simp only: fold_simps loop_body_eq)
  also have "\<dots> = (upd_masks ?h as (mask_seq (map (\<lambda>b. rect (?h b)) as) (grid_add st ?m)),
      final_state (map (\<lambda>b. rect (?h b)) as) (grid_add st ?m))"
    by (rule Cons.IH)
  also have "\<dots> = (upd_masks h (a # as) (mask_seq (map (\<lambda>b. rect (h b)) (a # as)) st),
      final_state (map (\<lambda>b. rect (h b)) (a # as)) st)"
    by (simp only: rect_upd_mask list.map mask_seq.simps final_state.simps upd_masks.simps)
  finally show ?case .
qed

lemma upd_masks_frame:
  "rect (upd_masks h as ms a) = rect (h a) \<and> prefixes (upd_masks h as ms a) = prefixes (h a) \<and>
   suffixes (upd_masks h as ms a) = suffixes (h a) \<and>
   OmostCanvasCondition.more (upd_masks h as ms a) = OmostCanvasCondition.more (h a)"
proof (induction as arbitrary: h ms)
  case Nil
  then show ?case by simp
next
  case (Cons b as)
  show ?case
  proof (cases ms)
    case Nil
    then show ?thesis by simp
  next
    case (Cons m ms')
    show ?thesis unfolding Cons upd_masks.simps
      by (simp only: Cons.IH) simp
  qed
qed

lemma upd_masks_other: "a \<notin> set as \<Longrightarrow> upd_masks h as ms a = h a"
proof (induction as arbitrary: h ms)
  case Nil
  then show ?case by simp
next
  case (Cons b as)
  then have ab: "a \<noteq> b" and a: "a \<notin> set as" by auto
  show ?case
  proof (cases ms)
    case Nil
    then show ?thesis by simp
  next
    case (Cons m ms')
    show ?thesis unfolding Cons upd_masks.simps
      by (simp only: Cons.IH[OF a]) (simp add: ab)
  qed
qed

lemma upd_masks_nth:
  "distinct as \<Longrightarrow> length ms = length as \<Longrightarrow> k < length as \<Longrightarrow>
   upd_masks h as ms (as ! k) = (h (as ! k))\<lparr>mask' := Some (ms ! k)\<rparr>"
proof (induction as arbitrary: h ms k)
  case Nil
  then show ?case by simp
next
  case (Cons b as)
  then obtain m ms' where ms: "ms = m # ms'" by (cases ms) auto
  have d: "distinct as" and b: "b \<notin> set as" and l: "length ms' = length as"
    using Cons.prems ms by auto
  show ?case
  proof (cases k)
    case 0
    show ?thesis unfolding ms 0 upd_masks.simps nth_Cons_0
      by (simp only: upd_masks_other[OF b]) simp
  next
    case (Suc k')
    then have k': "k' < length as" using Cons.prems by simp
    then have ne: "as ! k' \<noteq> b" using b by auto
    show ?thesis unfolding ms Suc upd_masks.simps nth_Cons_Suc
      by (simp only: Cons.IH[OF d l k']) (simp add: ne)
  qed
qed

lemma upd_masks_mask_in:
  "length ms = length as \<Longrightarrow> a \<in> set as \<Longrightarrow> \<exists>m\<in>set ms. mask' (upd_masks h as ms a) = Some m"
proof (induction as arbitrary: h ms)
  case Nil
  then show ?case by simp
next
  case (Cons b as)
  then obtain m ms' where ms: "ms = m # ms'" by (cases ms) auto
  have l: "length ms' = length as" using Cons.prems ms by simp
  show ?case
  proof (cases "a \<in> set as")
    case True
    have "\<exists>m'\<in>set ms'. mask' (upd_masks (h(b := (h b)\<lparr>mask' := Some m\<rparr>)) as ms' a) = Some m'"
      by (rule Cons.IH[OF l True])
    then show ?thesis unfolding ms upd_masks.simps by auto
  next
    case False
    then have ab: "a = b" and nb: "b \<notin> set as" using Cons.prems by auto
    show ?thesis unfolding ms upd_masks.simps ab
      by (simp add: upd_masks_other[OF nb])
  qed
qed

lemma wf_mask_seq: "wf_grid st \<Longrightarrow> list_all wf_grid (mask_seq rs st)"
  by (induction rs arbitrary: st) (simp_all add: wf_step_state wf_region_mask)

lemma binary_mask_seq: "wf_grid st \<Longrightarrow> binary_grid st \<Longrightarrow> list_all binary_grid (mask_seq rs st)"
  by (induction rs arbitrary: st) (simp_all add: wf_step_state binary_step_state binary_region_mask)

subsection \<open>The store that \<open>calc_cond_mask\<close> returns\<close>

lemma in_rect_valid:
  "valid_rect r \<Longrightarrow> x < CANVAS_SIZE \<Longrightarrow> y < CANVAS_SIZE \<Longrightarrow> in_rect r x y = in_rectangle r x y"
  by (cases r) (auto simp: valid_rect_def in_rect_def in_rectangle_def in_slice_def slice_index_def)

lemma calc_cond_mask_eq:
  assumes "refs \<noteq> []"
  shows "calc_cond_mask h refs = Inr (calc_heap h refs, refs)"
proof -
  let ?h1 = "h(refs ! 0 := (h (refs ! 0))\<lparr>mask' := Some (ones CANVAS_SIZE CANVAS_SIZE)\<rparr>)"
  have "fold loop_body (rev (tl refs)) (?h1, zeros CANVAS_SIZE CANVAS_SIZE) =
        (calc_heap h refs,
         final_state (map (\<lambda>a. rect (h a)) (rev (tl refs))) (zeros CANVAS_SIZE CANVAS_SIZE))"
    unfolding calc_heap_def by (simp only: fold_loop_body rect_upd_mask)
  then show ?thesis using assms by (simp add: calc_cond_mask_def Let_def)
qed

lemma calc_heap_frame:
  "rect (calc_heap h refs a) = rect (h a) \<and> prefixes (calc_heap h refs a) = prefixes (h a) \<and>
   suffixes (calc_heap h refs a) = suffixes (h a) \<and>
   OmostCanvasCondition.more (calc_heap h refs a) = OmostCanvasCondition.more (h a)"
  unfolding calc_heap_def by (simp only: upd_masks_frame) simp

lemma calc_heap_other:
  assumes "refs \<noteq> []" "a \<notin> set refs"
  shows "calc_heap h refs a = h a"
proof -
  have a: "a \<notin> set (rev (tl refs))" using assms by (cases refs) auto
  have "a \<noteq> refs ! 0" using assms by (cases refs) auto
  then show ?thesis unfolding calc_heap_def by (simp add: upd_masks_other[OF a])
qed

lemma calc_heap_global:
  assumes "refs \<noteq> []" "distinct refs"
  shows "calc_heap h refs (refs ! 0) = (h (refs ! 0))\<lparr>mask' := Some (ones CANVAS_SIZE CANVAS_SIZE)\<rparr>"
proof -
  have a: "refs ! 0 \<notin> set (rev (tl refs))" using assms by (cases refs) auto
  show ?thesis unfolding calc_heap_def by (simp add: upd_masks_other[OF a])
qed

lemma rev_tl_split:
  assumes "1 \<le> i" "i < length refs"
  shows "rev (tl refs) = rev (drop (Suc i) refs) @ refs ! i # rev (take (i - 1) (tl refs))"
proof -
  have i: "i - 1 < length (tl refs)" using assms by simp
  have "tl refs = take (i - 1) (tl refs) @ tl refs ! (i - 1) # drop (Suc (i - 1)) (tl refs)"
    using i by (rule id_take_nth_drop)
  moreover have "tl refs ! (i - 1) = refs ! i" using assms by (simp add: nth_tl)
  moreover have "drop (Suc (i - 1)) (tl refs) = drop (Suc i) refs" using assms by (simp add: drop_Suc)
  ultimately have "tl refs = take (i - 1) (tl refs) @ refs ! i # drop (Suc i) refs" by simp
  then have "rev (tl refs) = rev (take (i - 1) (tl refs) @ refs ! i # drop (Suc i) refs)" by simp
  then show ?thesis by simp
qed

lemma calc_heap_region:
  assumes "distinct refs" "1 \<le> i" "i < length refs"
  shows "calc_heap h refs (refs ! i) = (h (refs ! i))\<lparr>mask' := Some (occlusion_mask h refs i)\<rparr>"
proof -
  let ?as = "rev (tl refs)"
  let ?k = "length (drop (Suc i) refs)"
  let ?f = "\<lambda>a. rect (h a)"
  let ?ms = "mask_seq (map ?f ?as) (zeros CANVAS_SIZE CANVAS_SIZE)"
  let ?h1 = "h(refs ! 0 := (h (refs ! 0))\<lparr>mask' := Some (ones CANVAS_SIZE CANVAS_SIZE)\<rparr>)"
  have split: "?as = rev (drop (Suc i) refs) @ refs ! i # rev (take (i - 1) (tl refs))"
    using assms(2,3) by (rule rev_tl_split)
  have k: "?k < length ?as" using assms by simp
  have ask: "?as ! ?k = refs ! i"
    by (subst split) (simp add: nth_append)
  have d: "distinct ?as" using assms(1) by (simp add: distinct_tl)
  have "0 < length refs" using assms(3) by (cases refs) auto
  then have "(refs ! i = refs ! 0) = (i = 0)"
    using assms(1,3) by (simp add: nth_eq_iff_index_eq)
  then have ne: "refs ! i \<noteq> refs ! 0" using assms(2) by simp
  have "map ?f ?as = later_rects h refs i @ rect (h (refs ! i)) # map ?f (rev (take (i - 1) (tl refs)))"
    by (subst split) (simp add: later_rects_def)
  moreover have "length (later_rects h refs i) = ?k" by (simp add: later_rects_def)
  ultimately have msk: "?ms ! ?k = occlusion_mask h refs i"
    using mask_seq_append_nth[of "later_rects h refs i" "rect (h (refs ! i))"
        "map ?f (rev (take (i - 1) (tl refs)))" "zeros CANVAS_SIZE CANVAS_SIZE"]
    by (simp add: occlusion_mask_def)
  have "upd_masks ?h1 ?as ?ms (?as ! ?k) = (?h1 (?as ! ?k))\<lparr>mask' := Some (?ms ! ?k)\<rparr>"
    using d _ k by (rule upd_masks_nth) (simp add: length_mask_seq)
  then show ?thesis unfolding calc_heap_def using ask msk ne by simp
qed

lemma calc_heap_mask_grid:
  assumes "refs \<noteq> []" and "i < length refs"
  shows "\<exists>m. mask' (calc_heap h refs (refs ! i)) = Some m \<and> wf_grid m \<and> binary_grid m"
proof (cases "refs ! i \<in> set (rev (tl refs))")
  case True
  let ?ms = "mask_seq (map (\<lambda>a. rect (h a)) (rev (tl refs))) (zeros CANVAS_SIZE CANVAS_SIZE)"
  have "length ?ms = length (rev (tl refs))" by (simp add: length_mask_seq)
  from upd_masks_mask_in[OF this True]
  obtain m where m: "m \<in> set ?ms" and e: "mask' (calc_heap h refs (refs ! i)) = Some m"
    unfolding calc_heap_def by blast
  have "list_all wf_grid ?ms" by (intro wf_mask_seq wf_zeros)
  moreover have "list_all binary_grid ?ms" by (intro binary_mask_seq wf_zeros binary_zeros)
  ultimately have "wf_grid m \<and> binary_grid m" using m by (simp add: list_all_iff)
  then show ?thesis using e by simp
next
  case False
  have "refs ! i \<in> set refs" using assms by simp
  then have e: "refs ! i = refs ! 0" using False assms(1) by (cases refs) auto
  have a: "refs ! 0 \<notin> set (rev (tl refs))" using False e by simp
  show ?thesis unfolding calc_heap_def e
    by (simp add: upd_masks_other[OF a] wf_ones binary_ones)
qed

lemma later_rects_ex:
  "(\<exists>r\<in>set (later_rects h refs i). P r) = (\<exists>j. i < j \<and> j < length refs \<and> P (rect (h (refs ! j))))"
proof
  assume "\<exists>r\<in>set (later_rects h refs i). P r"
  then obtain a where a: "a \<in> set (drop (Suc i) refs)" and p: "P (rect (h a))"
    by (auto simp: later_rects_def)
  from a obtain k where "k < length (drop (Suc i) refs)" "drop (Suc i) refs ! k = a"
    by (auto simp: in_set_conv_nth)
  then have "i < Suc i + k \<and> Suc i + k < length refs \<and> refs ! (Suc i + k) = a" by auto
  with p show "\<exists>j. i < j \<and> j < length refs \<and> P (rect (h (refs ! j)))" by blast
next
  assume "\<exists>j. i < j \<and> j < length refs \<and> P (rect (h (refs ! j)))"
  then obtain j where j: "i < j" "j < length refs" and p: "P (rect (h (refs ! j)))" by blast
  have "drop (Suc i) refs ! (j - Suc i) = refs ! j" using j by simp
  moreover have "j - Suc i < length (drop (Suc i) refs)" using j by simp
  ultimately have "refs ! j \<in> set (drop (Suc i) refs)" by (metis nth_mem)
  then show "\<exists>r\<in>set (later_rects h refs i). P r" using p by (auto simp: later_rects_def)
qed

lemma wf_occlusion_mask: "wf_grid (occlusion_mask h refs i)"
  unfolding occlusion_mask_def by (intro wf_region_mask wf_final_state wf_zeros)

lemma binary_occlusion_mask: "binary_grid (occlusion_mask h refs i)"
  unfolding occlusion_mask_def
  by (intro binary_region_mask wf_final_state binary_final_state wf_zeros binary_zeros)

lemma nth_occlusion_mask:
  assumes "x < CANVAS_SIZE" "y < CANVAS_SIZE"
  shows "occlusion_mask h refs i ! x ! y =
     (if in_rect (rect (h (refs ! i))) x y \<and>
         \<not> (\<exists>j. i < j \<and> j < length refs \<and> in_rect (rect (h (refs ! j))) x y)
      then 1 else 0)"
proof -
  let ?st = "final_state (later_rects h refs i) (zeros CANVAS_SIZE CANVAS_SIZE)"
  have "?st ! x ! y = (if \<exists>r\<in>set (later_rects h refs i). in_rect r x y then 1 else 0)"
    using assms by (simp add: nth_final_state wf_zeros nth_zeros)
  then have "?st ! x ! y =
      (if \<exists>j. i < j \<and> j < length refs \<and> in_rect (rect (h (refs ! j))) x y then 1 else 0)"
    by (simp only: later_rects_ex)
  moreover have "occlusion_mask h refs i ! x ! y =
      (if in_rect (rect (h (refs ! i))) x y then 1 - ?st ! x ! y else 0)"
    unfolding occlusion_mask_def using assms by (simp add: nth_region_mask wf_final_state wf_zeros)
  ultimately show ?thesis by auto
qed

lemma occlusion_mask_cong:
  "(\<And>a. rect (h' a) = rect (h a)) \<Longrightarrow> occlusion_mask h' refs i = occlusion_mask h refs i"
  by (simp add: occlusion_mask_def later_rects_def)

lemma calc_heap_idem:
  assumes "refs \<noteq> []" and "distinct refs"
    and "\<And>a. rect (h' a) = rect (h a)"
    and "\<And>a. a \<in> set refs \<Longrightarrow> (h' a)\<lparr>mask' := None\<rparr> = (h a)\<lparr>mask' := None\<rparr>"
    and "i < length refs"
  shows "calc_heap h' refs (refs ! i) = calc_heap h refs (refs ! i)"
proof -
  have e: "\<And>v. (h' (refs ! i))\<lparr>mask' := v\<rparr> = (h (refs ! i))\<lparr>mask' := v\<rparr>"
  proof -
    fix v
    have "((h' (refs ! i))\<lparr>mask' := None\<rparr>)\<lparr>mask' := v\<rparr> = ((h (refs ! i))\<lparr>mask' := None\<rparr>)\<lparr>mask' := v\<rparr>"
      using assms(4)[of "refs ! i"] assms(5) by simp
    then show "(h' (refs ! i))\<lparr>mask' := v\<rparr> = (h (refs ! i))\<lparr>mask' := v\<rparr>" by simp
  qed
  show ?thesis
  proof (cases i)
    case 0
    then show ?thesis using assms(1,2) e by (simp add: calc_heap_global)
  next
    case (Suc k)
    then have i: "1 \<le> i" by simp
    show ?thesis using assms(2,5) i e occlusion_mask_cong[of h' h refs i, OF assms(3)]
      by (simp add: calc_heap_region)
  qed
qed

lemma example_valid:
  "\<forall>k<length [0, 1, 2::nat]. valid_rect (rect (example_heap ([0, 1, 2] ! k)))"
  by (auto simp: example_heap_def valid_rect_def CANVAS_SIZE_def less_Suc_eq numeral_3_eq_3)

subsection \<open>Loaded regions\<close>

















subsection \<open>The loop of \<open>encode_bag_of_subprompts\<close> and of \<open>layout_cond\<close>\<close>

lemma encode_loop_ok:
  "\<forall>t\<in>set sfx. length (encode (concat (ps @ [t]))) = 1 \<Longrightarrow>
   encode_loop encode ps sfx acc = Inr (acc @ map (\<lambda>t. hd (encode (concat (ps @ [t])))) sfx)"
proof (induction sfx arbitrary: acc)
  case Nil
  then show ?case by simp
next
  case (Cons t sfx)
  have "length (encode (concat (ps @ [t]))) = 1" using Cons.prems by simp
  then obtain x where x: "encode (concat (ps @ [t])) = [x]"
    by (cases "encode (concat (ps @ [t]))") auto
  have "encode_loop encode ps sfx (acc @ [x]) =
        Inr ((acc @ [x]) @ map (\<lambda>t. hd (encode (concat (ps @ [t])))) sfx)"
    using Cons.prems by (intro Cons.IH) simp
  moreover have "encode (concat ps @ t) = [x]" using x by simp
  ultimately show ?case by (simp add: Let_def)
qed

lemma encode_bag_of_subprompts_ok:
  assumes "sfx \<noteq> []" and "\<forall>t\<in>set sfx. length (encode (concat (ps @ [t]))) = 1"
  shows "encode_bag_of_subprompts encode torch_cat ps sfx =
     (case torch_cat (map (\<lambda>t. fst (hd (encode (concat (ps @ [t]))))) sfx) of
        Inl e \<Rightarrow> Inl e
      | Inr emb \<Rightarrow> Inr [(emb, snd (hd (encode (concat (ps @ [hd sfx])))))])"
proof -
  obtain t ts where s: "sfx = t # ts" using assms(1) by (cases sfx) auto
  have "encode_loop encode ps sfx [] = Inr (map (\<lambda>t. hd (encode (concat (ps @ [t])))) sfx)"
    using encode_loop_ok[OF assms(2), of "[]"] by simp
  then show ?thesis
    by (simp add: encode_bag_of_subprompts_def s comp_def split: sum.split)
qed

lemma encode_bag_of_subprompts_nil:
  "encode_bag_of_subprompts encode torch_cat ps [] =
     (case torch_cat [] of Inl e \<Rightarrow> Inl e | Inr t \<Rightarrow> Inl IndexError)"
  by (simp add: encode_bag_of_subprompts_def split: sum.split)

lemma layout_loop_empty_suffixes:
  "(i, a) \<in> set ias \<Longrightarrow> suffixes (h a) = [] \<Longrightarrow>
   isl (layout_loop encode torch_cat cond_set_mask h gs rs ias positive)"
proof (induction ias arbitrary: positive)
  case Nil
  then show ?case by simp
next
  case (Cons p ias)
  obtain j b where p: "p = (j, b)" by (cases p) auto
  show ?case
  proof (cases "(i, a) = p")
    case True
    then have "isl (region_cond encode torch_cat h j b)"
      using Cons.prems(2) p
      by (auto simp: region_cond_def Let_def encode_bag_of_subprompts_nil split: sum.split)
    then show ?thesis by (auto simp: p Let_def isl_def)
  next
    case False
    then have "(i, a) \<in> set ias" using Cons.prems(1) by simp
    then have "\<And>pos. isl (layout_loop encode torch_cat cond_set_mask h gs rs ias pos)"
      using Cons.IH Cons.prems(2) by blast
    then show ?thesis
      by (auto simp: p Let_def split: sum.split option.split)
  qed
qed

text \<open>
  Why the regions of a list are taken to be separate objects: when one object stands
  twice in the list, the writes of the loop land on the object of the global region too.
\<close>

lemma calc_cond_mask_same_object_twice:
  "\<exists>h'. calc_cond_mask example_heap [2, 2] = Inr (h', [2, 2]) \<and>
     mask' (h' 2) \<noteq> Some (ones CANVAS_SIZE CANVAS_SIZE)"
proof -
  let ?m = "region_mask (10, 20, 10, 20) (zeros CANVAS_SIZE CANVAS_SIZE)"
  have l: "0 < CANVAS_SIZE" by (simp add: CANVAS_SIZE_def)
  have "\<not> in_rect (10, 20, 10, 20) 0 0"
    by (simp add: in_rect_def in_slice_def slice_index_def CANVAS_SIZE_def)
  then have "?m ! 0 ! 0 = 0"
    using l by (simp add: nth_region_mask wf_zeros)
  moreover have "ones CANVAS_SIZE CANVAS_SIZE ! 0 ! 0 = 1" using l by (simp add: nth_ones)
  ultimately have "?m \<noteq> ones CANVAS_SIZE CANVAS_SIZE" by auto
  moreover have "mask' (calc_heap example_heap [2, 2] 2) = Some ?m"
    by (simp add: calc_heap_def example_heap_def)
  ultimately show ?thesis by (simp add: calc_cond_mask_eq)
qed

section \<open>The claims\<close>

subsection \<open>The mask of a region: the last in the list wins\<close>

text \<open>
  C1. For a list of \<open>n \<ge> 1\<close> separate regions whose rectangles are in range, \<open>calc_cond_mask\<close>
  returns, and the mask of every region \<open>i \<ge> 1\<close> is a grid of 90 rows of 90 cells
  (\<open>CANVAS_SIZE = 90\<close>) that is \<open>1\<close> exactly at the cells of the half-open rectangle of
  region \<open>i\<close> that lie in the rectangle of no region \<open>j > i\<close>, and \<open>0\<close> at every other
  cell.
\<close>

theorem calc_cond_mask_last_wins:
  assumes "canvas_conds \<noteq> []" and "distinct canvas_conds"
    and "\<forall>k<length canvas_conds. valid_rect (rect (h (canvas_conds ! k)))"
    and "1 \<le> i" and "i < length canvas_conds"
  shows "\<exists>h' m. calc_cond_mask h canvas_conds = Inr (h', canvas_conds) \<and>
      mask' (h' (canvas_conds ! i)) = Some m \<and>
      length m = CANVAS_SIZE \<and> list_all (\<lambda>row. length row = CANVAS_SIZE) m \<and>
      (\<forall>x<CANVAS_SIZE. \<forall>y<CANVAS_SIZE. m ! x ! y =
         (if in_rectangle (rect (h (canvas_conds ! i))) x y \<and>
             (\<forall>j. i < j \<and> j < length canvas_conds \<longrightarrow>
                  \<not> in_rectangle (rect (h (canvas_conds ! j))) x y)
          then 1 else 0))"
proof -
  let ?m = "occlusion_mask h canvas_conds i"
  have "calc_cond_mask h canvas_conds = Inr (calc_heap h canvas_conds, canvas_conds)"
    using assms(1) by (rule calc_cond_mask_eq)
  moreover have "mask' (calc_heap h canvas_conds (canvas_conds ! i)) = Some ?m"
    using assms(2,4,5) by (simp add: calc_heap_region)
  moreover have "length ?m = CANVAS_SIZE \<and> list_all (\<lambda>row. length row = CANVAS_SIZE) ?m"
    using wf_occlusion_mask[of h canvas_conds i] by (simp add: wf_grid_def)
  moreover have "\<forall>x<CANVAS_SIZE. \<forall>y<CANVAS_SIZE. ?m ! x ! y =
         (if in_rectangle (rect (h (canvas_conds ! i))) x y \<and>
             (\<forall>j. i < j \<and> j < length canvas_conds \<longrightarrow>
                  \<not> in_rectangle (rect (h (canvas_conds ! j))) x y)
          then 1 else 0)"
  proof (intro allI impI)
    fix x y assume xy: "x < CANVAS_SIZE" "y < CANVAS_SIZE"
    have v: "\<And>k. k < length canvas_conds \<Longrightarrow>
        in_rect (rect (h (canvas_conds ! k))) x y = in_rectangle (rect (h (canvas_conds ! k))) x y"
      using assms(3) xy by (simp add: in_rect_valid)
    have "(\<exists>j. i < j \<and> j < length canvas_conds \<and> in_rect (rect (h (canvas_conds ! j))) x y) =
          (\<exists>j. i < j \<and> j < length canvas_conds \<and> in_rectangle (rect (h (canvas_conds ! j))) x y)"
      using v by blast
    then show "?m ! x ! y =
         (if in_rectangle (rect (h (canvas_conds ! i))) x y \<and>
             (\<forall>j. i < j \<and> j < length canvas_conds \<longrightarrow>
                  \<not> in_rectangle (rect (h (canvas_conds ! j))) x y)
          then 1 else 0)"
      using xy v[OF assms(5)] by (simp add: nth_occlusion_mask)
  qed
  ultimately show ?thesis by blast
qed

text \<open>
  On the example of the specification, the mask of the region \<open>rect (0, 90, 0, 90)\<close> is
  \<open>1\<close> at cell \<open>(5, 5)\<close> and \<open>0\<close> at cell \<open>(15, 15)\<close>, which the later region
  \<open>rect (10, 20, 10, 20)\<close> owns.
\<close>

theorem calc_cond_mask_last_wins_witness:
  "\<exists>h' m. calc_cond_mask example_heap [0, 1, 2] = Inr (h', [0, 1, 2]) \<and>
     mask' (h' 1) = Some m \<and> m ! 5 ! 5 = 1 \<and> m ! 15 ! 15 = 0"
proof -
  let ?later = "\<lambda>x y. \<forall>j. 1 < j \<and> j < length [0, 1, 2::nat] \<longrightarrow>
                  \<not> in_rectangle (rect (example_heap ([0, 1, 2] ! j))) x y"
  let ?own = "in_rectangle (rect (example_heap ([0, 1, 2] ! 1)))"
  from calc_cond_mask_last_wins[of "[0, 1, 2]" example_heap 1, OF _ _ example_valid]
  obtain h' m where r: "calc_cond_mask example_heap [0, 1, 2] = Inr (h', [0, 1, 2])"
    and m: "mask' (h' 1) = Some m"
    and c: "\<forall>x<CANVAS_SIZE. \<forall>y<CANVAS_SIZE. m ! x ! y =
         (if ?own x y \<and> ?later x y then 1 else 0)"
    by auto
  have l5: "5 < CANVAS_SIZE" and l15: "15 < CANVAS_SIZE" by (simp_all add: CANVAS_SIZE_def)
  have own: "?own 5 5" by (simp add: example_heap_def in_rectangle_def)
  have later5: "?later 5 5"
  proof (intro allI impI)
    fix j assume "1 < j \<and> j < length [0, 1, 2::nat]"
    then have "j = 2" by simp
    then show "\<not> in_rectangle (rect (example_heap ([0, 1, 2] ! j))) 5 5"
      by (simp add: example_heap_def in_rectangle_def)
  qed
  have later15: "\<not> ?later 15 15"
  proof
    assume a: "?later 15 15"
    have "1 < (2::nat) \<and> 2 < length [0, 1, 2::nat]" by simp
    with a have "\<not> in_rectangle (rect (example_heap ([0, 1, 2] ! 2))) 15 15" by blast
    then show False by (simp add: example_heap_def in_rectangle_def)
  qed
  have "m ! 5 ! 5 = (if ?own 5 5 \<and> ?later 5 5 then 1 else 0)"
    by (rule c[rule_format, OF l5 l5])
  also have "\<dots> = 1" by (rule if_P[OF conjI[OF own later5]])
  finally have c5: "m ! 5 ! 5 = 1" .
  have "m ! 15 ! 15 = (if ?own 15 15 \<and> ?later 15 15 then 1 else 0)"
    by (rule c[rule_format, OF l15 l15])
  also have "\<dots> = 0" using later15 by (intro if_not_P) blast
  finally have c15: "m ! 15 ! 15 = 0" .
  show ?thesis using r m c5 c15 by blast
qed

subsection \<open>The mask of the global region\<close>

text \<open>
  C2. For every non-empty list of separate regions, \<open>calc_cond_mask\<close> returns and the mask of the
  first region is the grid of 90 rows of 90 ones, whatever the rectangle of that region
  (and of any other region) is.
\<close>

theorem calc_cond_mask_global_ones:
  assumes "canvas_conds \<noteq> []" and "distinct canvas_conds"
  shows "\<exists>h'. calc_cond_mask h canvas_conds = Inr (h', canvas_conds) \<and>
      mask' (h' (canvas_conds ! 0)) = Some (ones CANVAS_SIZE CANVAS_SIZE)"
  using assms by (simp add: calc_cond_mask_eq calc_heap_global)

theorem calc_cond_mask_global_ones_witness:
  "\<exists>h'. calc_cond_mask example_heap [0, 1, 2] = Inr (h', [0, 1, 2]) \<and>
     mask' (h' 0) = Some (ones CANVAS_SIZE CANVAS_SIZE) \<and> rect (example_heap 0) = (3, 4, 5, 6)"
  using calc_cond_mask_global_ones[of "[0, 1, 2]" example_heap]
  by (simp add: example_heap_def)

subsection \<open>The masks of two regions are disjoint\<close>

text \<open>
  C3. For every non-empty list of separate regions and every two different indices \<open>i, j \<ge> 1\<close>, no
  cell is \<open>1\<close> in both the mask of region \<open>i\<close> and the mask of region \<open>j\<close>. The rectangles
  need not be in range.
\<close>

theorem calc_cond_mask_disjoint:
  assumes "canvas_conds \<noteq> []" and "distinct canvas_conds"
    and "1 \<le> i" and "i < length canvas_conds"
    and "1 \<le> j" and "j < length canvas_conds" and "i \<noteq> j"
  shows "\<exists>h' mi mj. calc_cond_mask h canvas_conds = Inr (h', canvas_conds) \<and>
      mask' (h' (canvas_conds ! i)) = Some mi \<and> mask' (h' (canvas_conds ! j)) = Some mj \<and>
      (\<forall>x<CANVAS_SIZE. \<forall>y<CANVAS_SIZE. \<not> (mi ! x ! y = 1 \<and> mj ! x ! y = 1))"
proof -
  let ?mi = "occlusion_mask h canvas_conds i" and ?mj = "occlusion_mask h canvas_conds j"
  have "calc_cond_mask h canvas_conds = Inr (calc_heap h canvas_conds, canvas_conds)"
    using assms(1) by (rule calc_cond_mask_eq)
  moreover have "mask' (calc_heap h canvas_conds (canvas_conds ! i)) = Some ?mi"
    using assms(2,3,4) by (simp add: calc_heap_region)
  moreover have "mask' (calc_heap h canvas_conds (canvas_conds ! j)) = Some ?mj"
    using assms(2,5,6) by (simp add: calc_heap_region)
  moreover have "\<forall>x<CANVAS_SIZE. \<forall>y<CANVAS_SIZE. \<not> (?mi ! x ! y = 1 \<and> ?mj ! x ! y = 1)"
  proof (intro allI impI)
    fix x y assume xy: "x < CANVAS_SIZE" "y < CANVAS_SIZE"
    consider "i < j" | "j < i" using assms(7) by linarith
    then show "\<not> (?mi ! x ! y = 1 \<and> ?mj ! x ! y = 1)"
    proof cases
      case 1
      then show ?thesis using xy assms(6) by (auto simp: nth_occlusion_mask)
    next
      case 2
      then show ?thesis using xy assms(4) by (auto simp: nth_occlusion_mask)
    qed
  qed
  ultimately show ?thesis by blast
qed

theorem calc_cond_mask_disjoint_witness:
  "\<exists>h' mi mj. calc_cond_mask example_heap [0, 1, 2] = Inr (h', [0, 1, 2]) \<and>
     mask' (h' 1) = Some mi \<and> mask' (h' 2) = Some mj \<and>
     \<not> (mi ! 15 ! 15 = 1 \<and> mj ! 15 ! 15 = 1)"
proof -
  from calc_cond_mask_disjoint[of "[0, 1, 2]" 1 2 example_heap]
  obtain h' mi mj where "calc_cond_mask example_heap [0, 1, 2] = Inr (h', [0, 1, 2])"
    and "mask' (h' 1) = Some mi" and "mask' (h' 2) = Some mj"
    and c: "\<forall>x<CANVAS_SIZE. \<forall>y<CANVAS_SIZE. \<not> (mi ! x ! y = 1 \<and> mj ! x ! y = 1)"
    by auto
  moreover have "\<not> (mi ! 15 ! 15 = 1 \<and> mj ! 15 ! 15 = 1)"
    using c[rule_format, of 15 15] by (simp add: CANVAS_SIZE_def)
  ultimately show ?thesis by blast
qed

subsection \<open>A mask stays within its rectangle\<close>

text \<open>
  C4. For a non-empty list of separate regions whose rectangles are in range, the mask of every
  region \<open>i \<ge> 1\<close> is \<open>0\<close> at every cell outside the rectangle of that region; hence a cell
  at which the mask of some region \<open>i \<ge> 1\<close> is not \<open>0\<close> lies in the rectangle of some
  region \<open>j \<ge> 1\<close>.
\<close>

theorem calc_cond_mask_within_rect:
  assumes "canvas_conds \<noteq> []" and "distinct canvas_conds"
    and "\<forall>k<length canvas_conds. valid_rect (rect (h (canvas_conds ! k)))"
  shows "\<exists>h'. calc_cond_mask h canvas_conds = Inr (h', canvas_conds) \<and>
      (\<forall>i. 1 \<le> i \<and> i < length canvas_conds \<longrightarrow>
         (\<exists>m. mask' (h' (canvas_conds ! i)) = Some m \<and>
            (\<forall>x<CANVAS_SIZE. \<forall>y<CANVAS_SIZE.
               \<not> in_rectangle (rect (h (canvas_conds ! i))) x y \<longrightarrow> m ! x ! y = 0))) \<and>
      (\<forall>x<CANVAS_SIZE. \<forall>y<CANVAS_SIZE.
         (\<exists>i m. 1 \<le> i \<and> i < length canvas_conds \<and>
                mask' (h' (canvas_conds ! i)) = Some m \<and> m ! x ! y \<noteq> 0) \<longrightarrow>
         (\<exists>j. 1 \<le> j \<and> j < length canvas_conds \<and> in_rectangle (rect (h (canvas_conds ! j))) x y))"
proof -
  let ?h = "calc_heap h canvas_conds"
  have r: "calc_cond_mask h canvas_conds = Inr (?h, canvas_conds)"
    using assms(1) by (rule calc_cond_mask_eq)
  have m: "\<And>i. 1 \<le> i \<Longrightarrow> i < length canvas_conds \<Longrightarrow>
      mask' (?h (canvas_conds ! i)) = Some (occlusion_mask h canvas_conds i)"
    using assms(2) by (simp add: calc_heap_region)
  have z: "\<And>i x y. i < length canvas_conds \<Longrightarrow> x < CANVAS_SIZE \<Longrightarrow> y < CANVAS_SIZE \<Longrightarrow>
      \<not> in_rectangle (rect (h (canvas_conds ! i))) x y \<Longrightarrow> occlusion_mask h canvas_conds i ! x ! y = 0"
    using assms(3) by (simp add: nth_occlusion_mask in_rect_valid)
  have a: "\<forall>i. 1 \<le> i \<and> i < length canvas_conds \<longrightarrow>
         (\<exists>m. mask' (?h (canvas_conds ! i)) = Some m \<and>
            (\<forall>x<CANVAS_SIZE. \<forall>y<CANVAS_SIZE.
               \<not> in_rectangle (rect (h (canvas_conds ! i))) x y \<longrightarrow> m ! x ! y = 0))"
    using m z by simp
  have b: "\<forall>x<CANVAS_SIZE. \<forall>y<CANVAS_SIZE.
         (\<exists>i m. 1 \<le> i \<and> i < length canvas_conds \<and>
                mask' (?h (canvas_conds ! i)) = Some m \<and> m ! x ! y \<noteq> 0) \<longrightarrow>
         (\<exists>j. 1 \<le> j \<and> j < length canvas_conds \<and> in_rectangle (rect (h (canvas_conds ! j))) x y)"
  proof (intro allI impI)
    fix x y assume xy: "x < CANVAS_SIZE" "y < CANVAS_SIZE"
      and "\<exists>i m. 1 \<le> i \<and> i < length canvas_conds \<and>
                mask' (?h (canvas_conds ! i)) = Some m \<and> m ! x ! y \<noteq> 0"
    then obtain i m' where i: "1 \<le> i" "i < length canvas_conds"
      and m': "mask' (?h (canvas_conds ! i)) = Some m'" "m' ! x ! y \<noteq> 0" by blast
    have "m' = occlusion_mask h canvas_conds i" using m[OF i] m'(1) by simp
    then have "in_rectangle (rect (h (canvas_conds ! i))) x y"
      using z[OF i(2) xy] m'(2) by auto
    then show "\<exists>j. 1 \<le> j \<and> j < length canvas_conds \<and> in_rectangle (rect (h (canvas_conds ! j))) x y"
      using i by blast
  qed
  show ?thesis using r a b by blast
qed

theorem calc_cond_mask_within_rect_witness:
  "\<exists>h' m. calc_cond_mask example_heap [0, 1, 2] = Inr (h', [0, 1, 2]) \<and>
     mask' (h' 2) = Some m \<and> m ! 5 ! 5 = 0 \<and> m ! 20 ! 10 = 0"
proof -
  from calc_cond_mask_within_rect[of "[0, 1, 2]" example_heap, OF _ _ example_valid]
  obtain h' where r: "calc_cond_mask example_heap [0, 1, 2] = Inr (h', [0, 1, 2])"
    and a: "\<forall>i. 1 \<le> i \<and> i < length [0, 1, 2::nat] \<longrightarrow>
         (\<exists>m. mask' (h' ([0, 1, 2] ! i)) = Some m \<and>
            (\<forall>x<CANVAS_SIZE. \<forall>y<CANVAS_SIZE.
               \<not> in_rectangle (rect (example_heap ([0, 1, 2] ! i))) x y \<longrightarrow> m ! x ! y = 0))"
    by auto
  from a[rule_format, of 2] obtain m where m: "mask' (h' 2) = Some m"
    and z: "\<forall>x<CANVAS_SIZE. \<forall>y<CANVAS_SIZE.
               \<not> in_rectangle (rect (example_heap 2)) x y \<longrightarrow> m ! x ! y = 0"
    by auto
  have "m ! 5 ! 5 = 0"
    using z[rule_format, of 5 5] by (simp add: CANVAS_SIZE_def example_heap_def in_rectangle_def)
  moreover have "m ! 20 ! 10 = 0"
    using z[rule_format, of 20 10] by (simp add: CANVAS_SIZE_def example_heap_def in_rectangle_def)
  ultimately show ?thesis using r m by blast
qed

subsection \<open>The assertion is the only check of \<open>calc_cond_mask\<close>\<close>





subsection \<open>A rectangle of zero area\<close>

text \<open>
  C6. For every region \<open>i \<ge> 1\<close> of a list of separate regions whose rectangle \<open>(a, b, c, d)\<close> has \<open>a = b\<close> or \<open>c = d\<close>,
  \<open>calc_cond_mask\<close> returns and the mask of the region is the grid of zeros.
\<close>

theorem calc_cond_mask_zero_area:
  assumes "canvas_conds \<noteq> []" and "distinct canvas_conds"
    and "1 \<le> i" and "i < length canvas_conds"
    and "rect (h (canvas_conds ! i)) = (a, b, c, d)" and "a = b \<or> c = d"
  shows "\<exists>h'. calc_cond_mask h canvas_conds = Inr (h', canvas_conds) \<and>
      mask' (h' (canvas_conds ! i)) = Some (zeros CANVAS_SIZE CANVAS_SIZE)"
proof -
  have "\<And>x y. \<not> in_rect (rect (h (canvas_conds ! i))) x y"
    using assms(5,6) by (auto simp: in_rect_def in_slice_def)
  then have "occlusion_mask h canvas_conds i = zeros CANVAS_SIZE CANVAS_SIZE"
    by (intro grid_eqI wf_occlusion_mask wf_zeros) (simp add: nth_occlusion_mask nth_zeros)
  then show ?thesis using assms(1,2,3,4) by (simp add: calc_cond_mask_eq calc_heap_region)
qed

theorem calc_cond_mask_zero_area_witness:
  "rect (example_heap 3) = (5, 5, 5, 5) \<and>
   (\<exists>h'. calc_cond_mask example_heap [0, 1, 2, 3] = Inr (h', [0, 1, 2, 3]) \<and>
     mask' (h' 3) = Some (zeros CANVAS_SIZE CANVAS_SIZE))"
  using calc_cond_mask_zero_area[of "[0, 1, 2, 3]" 3 example_heap 5 5 5 5]
  by (simp add: example_heap_def)

subsection \<open>Idempotence\<close>

text \<open>
  C7. For every non-empty list of separate regions, running \<open>calc_cond_mask\<close> on its own output
  returns that output again, and running it on the input with the masks cleared returns
  the same regions, masks included, as running it on the input.
\<close>

theorem calc_cond_mask_idempotent:
  assumes "canvas_conds \<noteq> []" and "distinct canvas_conds"
  shows "\<exists>h1. calc_cond_mask h canvas_conds = Inr (h1, canvas_conds) \<and>
      calc_cond_mask h1 canvas_conds = Inr (h1, canvas_conds) \<and>
      (\<exists>h2. calc_cond_mask (clear_masks h) canvas_conds = Inr (h2, canvas_conds) \<and>
            map h2 canvas_conds = map h1 canvas_conds)"
proof -
  let ?h1 = "calc_heap h canvas_conds"
  let ?h2 = "calc_heap (clear_masks h) canvas_conds"
  have "calc_heap ?h1 canvas_conds = ?h1"
  proof
    fix a
    show "calc_heap ?h1 canvas_conds a = ?h1 a"
    proof (cases "a \<in> set canvas_conds")
      case False
      then show ?thesis using assms(1) by (simp add: calc_heap_other)
    next
      case True
      then obtain i where i: "i < length canvas_conds" "canvas_conds ! i = a"
        by (auto simp: in_set_conv_nth)
      have "calc_heap ?h1 canvas_conds (canvas_conds ! i) = ?h1 (canvas_conds ! i)"
      proof (cases i)
        case 0
        then show ?thesis using assms by (simp add: calc_heap_global)
      next
        case (Suc k)
        then have "1 \<le> i" by simp
        then show ?thesis using assms(2) i(1)
            occlusion_mask_cong[of ?h1 h canvas_conds i]
          by (simp add: calc_heap_region calc_heap_frame)
      qed
      then show ?thesis using i(2) by simp
    qed
  qed
  moreover have "map ?h2 canvas_conds = map ?h1 canvas_conds"
  proof (rule nth_equalityI)
    show "length (map ?h2 canvas_conds) = length (map ?h1 canvas_conds)" by simp
  next
    fix i assume "i < length (map ?h2 canvas_conds)"
    then have i: "i < length canvas_conds" by simp
    have "?h2 (canvas_conds ! i) = ?h1 (canvas_conds ! i)"
      using assms _ _ i by (rule calc_heap_idem) (simp_all add: clear_masks_def)
    then show "map ?h2 canvas_conds ! i = map ?h1 canvas_conds ! i" using i by simp
  qed
  ultimately show ?thesis using assms(1) by (simp add: calc_cond_mask_eq)
qed

theorem calc_cond_mask_idempotent_witness:
  "\<exists>h1. calc_cond_mask example_heap [0, 1, 2] = Inr (h1, [0, 1, 2]) \<and>
      calc_cond_mask h1 [0, 1, 2] = Inr (h1, [0, 1, 2]) \<and>
      (\<exists>h2. calc_cond_mask (clear_masks example_heap) [0, 1, 2] = Inr (h2, [0, 1, 2]) \<and>
            map h2 [0, 1, 2] = map h1 [0, 1, 2])"
  using calc_cond_mask_idempotent[of "[0, 1, 2]" example_heap] by simp

subsection \<open>Only the masks change\<close>

text \<open>
  C8. For every non-empty list of regions, \<open>calc_cond_mask\<close> returns the same list (the
  same regions in the same order); every region of the list then carries a mask, a grid
  of 90 rows of 90 cells that are \<open>0\<close> or \<open>1\<close>; when the regions are separate objects the
  masks are the grids the loop computes, the grid of ones for the first region and for
  region \<open>i \<ge> 1\<close> the cells of its slice \<open>[a:b, c:d]\<close> that are in the slice of no later
  region; the fields \<open>rect\<close>, \<open>prefixes\<close> and \<open>suffixes\<close> of every region are unchanged, and a
  region that is not in the list is unchanged.
\<close>

theorem calc_cond_mask_frame:
  assumes "canvas_conds \<noteq> []"
  shows "\<exists>h'. calc_cond_mask h canvas_conds = Inr (h', canvas_conds) \<and>
      (\<forall>i<length canvas_conds. \<exists>m. mask' (h' (canvas_conds ! i)) = Some m \<and>
          length m = CANVAS_SIZE \<and> list_all (\<lambda>row. length row = CANVAS_SIZE) m \<and>
          list_all (list_all (\<lambda>v. v = 0 \<or> v = 1)) m) \<and>
      (distinct canvas_conds \<longrightarrow>
         mask' (h' (canvas_conds ! 0)) = Some (ones CANVAS_SIZE CANVAS_SIZE) \<and>
         (\<forall>i. 1 \<le> i \<and> i < length canvas_conds \<longrightarrow>
            (\<exists>m. mask' (h' (canvas_conds ! i)) = Some m \<and>
               (\<forall>x<CANVAS_SIZE. \<forall>y<CANVAS_SIZE. m ! x ! y =
                  (if in_rect (rect (h (canvas_conds ! i))) x y \<and>
                      (\<forall>j. i < j \<and> j < length canvas_conds \<longrightarrow>
                           \<not> in_rect (rect (h (canvas_conds ! j))) x y)
                   then 1 else 0))))) \<and>
      (\<forall>a. rect (h' a) = rect (h a) \<and> prefixes (h' a) = prefixes (h a) \<and>
           suffixes (h' a) = suffixes (h a)) \<and>
      (\<forall>a. a \<notin> set canvas_conds \<longrightarrow> h' a = h a)"
proof -
  let ?h = "calc_heap h canvas_conds"
  have r: "calc_cond_mask h canvas_conds = Inr (?h, canvas_conds)"
    using assms by (rule calc_cond_mask_eq)
  have g: "\<forall>i<length canvas_conds. \<exists>m. mask' (?h (canvas_conds ! i)) = Some m \<and>
          length m = CANVAS_SIZE \<and> list_all (\<lambda>row. length row = CANVAS_SIZE) m \<and>
          list_all (list_all (\<lambda>v. v = 0 \<or> v = 1)) m"
    using calc_heap_mask_grid[OF assms, of _ h] by (simp add: wf_grid_def binary_grid_def)
  have d: "distinct canvas_conds \<longrightarrow>
         mask' (?h (canvas_conds ! 0)) = Some (ones CANVAS_SIZE CANVAS_SIZE) \<and>
         (\<forall>i. 1 \<le> i \<and> i < length canvas_conds \<longrightarrow>
            (\<exists>m. mask' (?h (canvas_conds ! i)) = Some m \<and>
               (\<forall>x<CANVAS_SIZE. \<forall>y<CANVAS_SIZE. m ! x ! y =
                  (if in_rect (rect (h (canvas_conds ! i))) x y \<and>
                      (\<forall>j. i < j \<and> j < length canvas_conds \<longrightarrow>
                           \<not> in_rect (rect (h (canvas_conds ! j))) x y)
                   then 1 else 0))))"
  proof
    assume dis: "distinct canvas_conds"
    have "mask' (?h (canvas_conds ! 0)) = Some (ones CANVAS_SIZE CANVAS_SIZE)"
      using assms dis by (simp add: calc_heap_global)
    moreover have "\<forall>i. 1 \<le> i \<and> i < length canvas_conds \<longrightarrow>
            (\<exists>m. mask' (?h (canvas_conds ! i)) = Some m \<and>
               (\<forall>x<CANVAS_SIZE. \<forall>y<CANVAS_SIZE. m ! x ! y =
                  (if in_rect (rect (h (canvas_conds ! i))) x y \<and>
                      (\<forall>j. i < j \<and> j < length canvas_conds \<longrightarrow>
                           \<not> in_rect (rect (h (canvas_conds ! j))) x y)
                   then 1 else 0)))"
    proof (intro allI impI)
      fix i assume i: "1 \<le> i \<and> i < length canvas_conds"
      have "mask' (?h (canvas_conds ! i)) = Some (occlusion_mask h canvas_conds i)"
        using dis i by (simp add: calc_heap_region)
      moreover have "\<forall>x<CANVAS_SIZE. \<forall>y<CANVAS_SIZE. occlusion_mask h canvas_conds i ! x ! y =
                  (if in_rect (rect (h (canvas_conds ! i))) x y \<and>
                      (\<forall>j. i < j \<and> j < length canvas_conds \<longrightarrow>
                           \<not> in_rect (rect (h (canvas_conds ! j))) x y)
                   then 1 else 0)"
        by (auto simp: nth_occlusion_mask)
      ultimately show "\<exists>m. mask' (?h (canvas_conds ! i)) = Some m \<and>
               (\<forall>x<CANVAS_SIZE. \<forall>y<CANVAS_SIZE. m ! x ! y =
                  (if in_rect (rect (h (canvas_conds ! i))) x y \<and>
                      (\<forall>j. i < j \<and> j < length canvas_conds \<longrightarrow>
                           \<not> in_rect (rect (h (canvas_conds ! j))) x y)
                   then 1 else 0))"
        by blast
    qed
    ultimately show "mask' (?h (canvas_conds ! 0)) = Some (ones CANVAS_SIZE CANVAS_SIZE) \<and>
         (\<forall>i. 1 \<le> i \<and> i < length canvas_conds \<longrightarrow>
            (\<exists>m. mask' (?h (canvas_conds ! i)) = Some m \<and>
               (\<forall>x<CANVAS_SIZE. \<forall>y<CANVAS_SIZE. m ! x ! y =
                  (if in_rect (rect (h (canvas_conds ! i))) x y \<and>
                      (\<forall>j. i < j \<and> j < length canvas_conds \<longrightarrow>
                           \<not> in_rect (rect (h (canvas_conds ! j))) x y)
                   then 1 else 0))))"
      by blast
  qed
  have f: "\<forall>a. rect (?h a) = rect (h a) \<and> prefixes (?h a) = prefixes (h a) \<and>
           suffixes (?h a) = suffixes (h a)"
    by (simp add: calc_heap_frame)
  have o: "\<forall>a. a \<notin> set canvas_conds \<longrightarrow> ?h a = h a"
    using assms by (simp add: calc_heap_other)
  show ?thesis using r g d f o by blast
qed

theorem calc_cond_mask_frame_witness:
  "\<exists>h'. calc_cond_mask example_heap [0, 1, 2] = Inr (h', [0, 1, 2]) \<and>
     (\<exists>m. mask' (h' 1) = Some m \<and> length m = CANVAS_SIZE \<and>
          list_all (\<lambda>row. length row = CANVAS_SIZE) m \<and>
          list_all (list_all (\<lambda>v. v = 0 \<or> v = 1)) m) \<and>
     mask' (h' 0) = Some (ones CANVAS_SIZE CANVAS_SIZE) \<and>
     (\<exists>m. mask' (h' 2) = Some m \<and> m ! 15 ! 15 = 1 \<and> m ! 5 ! 5 = 0) \<and>
     rect (h' 2) = (10, 20, 10, 20) \<and> prefixes (h' 2) = [''g '', ''r ''] \<and>
     suffixes (h' 2) = [''x'', ''y''] \<and>
     h' 7 = example_heap 7"
proof -
  let ?cell = "\<lambda>i x y. if in_rect (rect (example_heap ([0, 1, 2] ! i))) x y \<and>
                      (\<forall>j. i < j \<and> j < length [0, 1, 2::nat] \<longrightarrow>
                           \<not> in_rect (rect (example_heap ([0, 1, 2] ! j))) x y)
                   then 1 else (0::real)"
  from calc_cond_mask_frame[of "[0, 1, 2]" example_heap]
  obtain h' where r: "calc_cond_mask example_heap [0, 1, 2] = Inr (h', [0, 1, 2])"
    and g: "\<forall>i<length [0, 1, 2::nat]. \<exists>m. mask' (h' ([0, 1, 2] ! i)) = Some m \<and>
          length m = CANVAS_SIZE \<and> list_all (\<lambda>row. length row = CANVAS_SIZE) m \<and>
          list_all (list_all (\<lambda>v. v = 0 \<or> v = 1)) m"
    and d: "distinct [0, 1, 2::nat] \<longrightarrow>
         mask' (h' ([0, 1, 2] ! 0)) = Some (ones CANVAS_SIZE CANVAS_SIZE) \<and>
         (\<forall>i. 1 \<le> i \<and> i < length [0, 1, 2::nat] \<longrightarrow>
            (\<exists>m. mask' (h' ([0, 1, 2] ! i)) = Some m \<and>
               (\<forall>x<CANVAS_SIZE. \<forall>y<CANVAS_SIZE. m ! x ! y = ?cell i x y)))"
    and f: "\<forall>a. rect (h' a) = rect (example_heap a) \<and> prefixes (h' a) = prefixes (example_heap a) \<and>
           suffixes (h' a) = suffixes (example_heap a)"
    and o: "\<forall>a. a \<notin> set [0, 1, 2::nat] \<longrightarrow> h' a = example_heap a"
    by auto
  have g1: "\<exists>m. mask' (h' 1) = Some m \<and> length m = CANVAS_SIZE \<and>
          list_all (\<lambda>row. length row = CANVAS_SIZE) m \<and>
          list_all (list_all (\<lambda>v. v = 0 \<or> v = 1)) m"
    using g[rule_format, of 1] by simp
  have d0: "mask' (h' 0) = Some (ones CANVAS_SIZE CANVAS_SIZE)" using d by simp
  have two: "1 \<le> (2::nat) \<and> 2 < length [0, 1, 2::nat]" by simp
  have dis: "distinct [0, 1, 2::nat]" by simp
  have "\<exists>m. mask' (h' ([0, 1, 2] ! 2)) = Some m \<and>
               (\<forall>x<CANVAS_SIZE. \<forall>y<CANVAS_SIZE. m ! x ! y = ?cell 2 x y)"
    by (rule d[rule_format, OF dis, THEN conjunct2, rule_format, OF two])
  then obtain m where m0: "mask' (h' ([0, 1, 2] ! 2)) = Some m"
    and c: "\<forall>x<CANVAS_SIZE. \<forall>y<CANVAS_SIZE. m ! x ! y = ?cell 2 x y"
    by (elim exE conjE)
  have m: "mask' (h' 2) = Some m" using m0 by simp
  have l5: "5 < CANVAS_SIZE" and l15: "15 < CANVAS_SIZE" by (simp_all add: CANVAS_SIZE_def)
  have "m ! 15 ! 15 = ?cell 2 15 15" by (rule c[rule_format, OF l15 l15])
  also have "\<dots> = 1"
    by (simp add: example_heap_def in_rect_def in_slice_def slice_index_def CANVAS_SIZE_def)
  finally have c15: "m ! 15 ! 15 = 1" .
  have "m ! 5 ! 5 = ?cell 2 5 5" by (rule c[rule_format, OF l5 l5])
  also have "\<dots> = 0"
    by (simp add: example_heap_def in_rect_def in_slice_def slice_index_def CANVAS_SIZE_def)
  finally have c5: "m ! 5 ! 5 = 0" .
  have "rect (h' 2) = (10, 20, 10, 20) \<and> prefixes (h' 2) = [''g '', ''r ''] \<and>
     suffixes (h' 2) = [''x'', ''y'']"
    using f[rule_format, of 2] by (simp add: example_heap_def)
  moreover have "h' 7 = example_heap 7" using o[rule_format, of 7] by simp
  ultimately show ?thesis using r g1 d0 m c15 c5 by blast
qed

subsection \<open>The conditioning of the text of a region\<close>

text \<open>
  C9. For a region with at least one suffix, and an encoder that returns one entry for
  each complete prompt, the conditioning that \<open>layout_cond\<close> obtains from
  \<open>encode_bag_of_subprompts\<close> for region \<open>i\<close> has one entry: its embedding is \<open>torch.cat\<close>
  (along axis 1) of the embeddings of the complete prompts, one per suffix in the order of
  the suffixes, each the concatenation of the retained prefixes and that suffix (the first
  prefix is dropped unless \<open>i = 0\<close>); its pooled output is that of the prompt of the first
  suffix. If \<open>torch.cat\<close> raises, so does the call.
\<close>

theorem region_cond_bag_of_subprompts:
  assumes "suffixes (h canvas_cond) \<noteq> []"
    and "\<forall>t\<in>set (suffixes (h canvas_cond)).
           length (encode (region_prompt (i = 0) (prefixes (h canvas_cond)) t)) = 1"
  shows "region_cond encode torch_cat h i canvas_cond =
     (case torch_cat (map (\<lambda>t. fst (hd (encode (region_prompt (i = 0) (prefixes (h canvas_cond)) t))))
                       (suffixes (h canvas_cond))) of
        Inl e \<Rightarrow> Inl e
      | Inr emb \<Rightarrow>
          Inr [(emb, snd (hd (encode (region_prompt (i = 0) (prefixes (h canvas_cond))
                                        (hd (suffixes (h canvas_cond)))))))])"
proof -
  let ?ps = "if i = 0 then prefixes (h canvas_cond) else tl (prefixes (h canvas_cond))"
  have p: "\<And>t. region_prompt (i = 0) (prefixes (h canvas_cond)) t = concat (?ps @ [t])"
    by (simp add: region_prompt_def)
  have r: "region_cond encode torch_cat h i canvas_cond =
        encode_bag_of_subprompts encode torch_cat ?ps (suffixes (h canvas_cond))"
    by (simp add: region_cond_def Let_def drop_Suc)
  have "\<forall>t\<in>set (suffixes (h canvas_cond)). length (encode (concat (?ps @ [t]))) = 1"
    using assms(2) unfolding p .
  from encode_bag_of_subprompts_ok[OF assms(1) this, of torch_cat]
  show ?thesis unfolding r p .
qed

theorem region_cond_bag_of_subprompts_witness:
  "region_cond example_encode example_cat example_heap 1 1 = Inr [(''r xr y'', 3)] \<and>
   region_cond example_encode example_cat example_heap 0 0 = Inr [(''g r xg r y'', 5)]"
  using region_cond_bag_of_subprompts[of example_heap 1 example_encode 1 example_cat]
    region_cond_bag_of_subprompts[of example_heap 0 example_encode 0 example_cat]
  by (simp add: example_heap_def example_encode_def example_cat_def region_prompt_def)

subsection \<open>A region without suffixes\<close>

text \<open>
  C10, amended. With an empty list of suffixes \<open>encode_bag_of_subprompts\<close> raises and returns
  no conditioning. The error is the one \<open>torch.cat\<close> raises on the empty list of embeddings:
  that call is evaluated before \<open>conds[0]\<close>, whose \<open>IndexError\<close> arises only if \<open>torch.cat\<close>
  returns on the empty list. Hence \<open>layout_cond\<close> raises whenever some region of its list
  has no suffix.
\<close>

theorem encode_bag_of_subprompts_no_suffixes:
  "encode_bag_of_subprompts encode torch_cat prefixes' [] =
     (case torch_cat [] of Inl e \<Rightarrow> Inl e | Inr t \<Rightarrow> Inl IndexError) \<and>
   isl (encode_bag_of_subprompts encode torch_cat prefixes' []) \<and>
   (\<forall>h canvas_conds. (\<exists>a\<in>set canvas_conds. suffixes (h a) = []) \<longrightarrow>
      isl (layout_cond encode torch_cat cond_set_mask h canvas_conds global_strength
             region_strength positive))"
proof -
  have a: "encode_bag_of_subprompts encode torch_cat prefixes' [] =
     (case torch_cat [] of Inl e \<Rightarrow> Inl e | Inr t \<Rightarrow> Inl IndexError)"
    by (rule encode_bag_of_subprompts_nil)
  have b: "isl (encode_bag_of_subprompts encode torch_cat prefixes' [])"
    unfolding a by (simp split: sum.split)
  have c: "\<forall>h canvas_conds. (\<exists>a\<in>set canvas_conds. suffixes (h a) = []) \<longrightarrow>
      isl (layout_cond encode torch_cat cond_set_mask h canvas_conds global_strength
             region_strength positive)"
  proof (intro allI impI)
    fix h :: heap and canvas_conds
    assume "\<exists>a\<in>set canvas_conds. suffixes (h a) = []"
    then obtain a where a: "a \<in> set canvas_conds" and s: "suffixes (h a) = []" by blast
    then have ne: "canvas_conds \<noteq> []" by auto
    from a obtain i where i: "i < length canvas_conds" "canvas_conds ! i = a"
      by (auto simp: in_set_conv_nth)
    then have "(i, a) \<in> set (zip [0..<length canvas_conds] canvas_conds)"
      unfolding in_set_zip by (intro exI[of _ i]) simp
    moreover have "suffixes (calc_heap h canvas_conds a) = []"
      using s by (simp add: calc_heap_frame)
    ultimately have "isl (layout_loop encode torch_cat cond_set_mask (calc_heap h canvas_conds)
        global_strength region_strength (zip [0..<length canvas_conds] canvas_conds)
        (case positive of None \<Rightarrow> [] | Some p \<Rightarrow> p))"
      by (rule layout_loop_empty_suffixes)
    then obtain e where "layout_loop encode torch_cat cond_set_mask (calc_heap h canvas_conds)
        global_strength region_strength (zip [0..<length canvas_conds] canvas_conds)
        (case positive of None \<Rightarrow> [] | Some p \<Rightarrow> p) = Inl e"
      by (auto simp: isl_def)
    then show "isl (layout_cond encode torch_cat cond_set_mask h canvas_conds global_strength
             region_strength positive)"
      using ne by (simp add: layout_cond_def calc_cond_mask_eq Let_def)
  qed
  show ?thesis using a b c by blast
qed

theorem encode_bag_of_subprompts_no_suffixes_witness:
  "encode_bag_of_subprompts example_encode example_cat [''g ''] [] = Inl RuntimeError \<and>
   encode_bag_of_subprompts example_encode total_cat [''g ''] [] = Inl IndexError \<and>
   isl (layout_cond example_encode example_cat example_set_mask no_suffix_heap [0, 1, 2]
          (1 / 5) (4 / 5) None)"
proof -
  have "\<exists>a\<in>set [0, 1, 2::nat]. suffixes (no_suffix_heap a) = []"
    by (simp add: no_suffix_heap_def)
  then show ?thesis
    using encode_bag_of_subprompts_no_suffixes[of example_encode example_cat "[''g '']"
        example_set_mask "1 / 5" "4 / 5" None]
      encode_bag_of_subprompts_no_suffixes[of example_encode total_cat "[''g '']"
        example_set_mask "1 / 5" "4 / 5" None]
    by (simp add: example_cat_def total_cat_def)
qed

text \<open>
  The claim as first stated names the indexing of the empty list \<open>conds\<close> as the failure.
  With a concatenation that raises on the empty list, as \<open>torch.cat\<close> does, the error is
  that of the concatenation and not \<open>IndexError\<close>.
\<close>

theorem encode_bag_of_subprompts_no_suffixes_counterexample:
  "example_cat [] = Inl RuntimeError \<and>
   encode_bag_of_subprompts example_encode example_cat [''g ''] [] = Inl RuntimeError \<and>
   encode_bag_of_subprompts example_encode example_cat [''g ''] [] \<noteq> Inl IndexError"
  by (simp add: encode_bag_of_subprompts_def example_cat_def)

end
